theory Spec2Isabelle
  imports Main "HOL-Library.Multiset"
begin

section \<open>Data model of \<open>main.py\<close>\<close>

text \<open>
  The exceptions the generator can raise. \<open>AssertionError\<close> is the
  \<^verbatim>\<open>assert valid_tile_counts != {}\<close> of \<open>coupled_markov_chain\<close>;
  \<open>ValueError\<close> and \<open>OverflowError\<close> are what numpy's \<open>dirichlet\<close> and
  \<open>choice\<close> raise.
\<close>

datatype error = IndexError | KeyError | AssertionError | ValueError | OverflowError

type_synonym position = "int \<times> int"

text \<open>
  A \<open>collections.Counter\<close>: keys in insertion order with their counts.
  \<open>valid_tile_counts\<close>, a plain dict from tile id to a count, has the same shape.
\<close>

type_synonym counter = "(int \<times> int) list"

text \<open>
  \<^verbatim>\<open>{i: Counter() for i in range(8)}\<close>: a dict from direction index to a
  Counter, kept as an association list; \<open>self.counts\<close> is a list of them, one per tile.
\<close>

type_synonym dirs = "(int \<times> counter) list"
type_synonym table = "dirs list"

text \<open>
  The mapping dict: the entry \<^verbatim>\<open>'info'\<close> holds the declared shape, every
  other key is a position tuple.
\<close>

record grid =
  info_row :: int
  info_col :: int
  cells :: "position \<rightharpoonup> int"

text \<open>
  The random source: an unbounded supply of draws. Every sequence of outcomes of the
  two library generators (\<open>random\<close> and \<open>numpy.random\<close>) is the behaviour of
  some supply, so a statement for all supplies covers every run.
\<close>

type_synonym rng = "nat \<Rightarrow> nat"

definition rng_next :: "rng \<Rightarrow> nat \<times> rng" where
  "rng_next g = (g 0, \<lambda>i. g (Suc i))"

text \<open>
  The program state: the fields of the \<open>TiledImageGenerator\<close> object and the
  random source. Every method takes the state and returns it with its result.
\<close>

record state =
  self_mapping :: grid
  self_n :: int
  self_counts :: table
  rng :: rng

section \<open>Python primitives\<close>

definition range_py :: "int \<Rightarrow> int list" where
  "range_py k = [0..k - 1]"

text \<open>\<open>itertools.product\<close>: the first sequence is the outer loop.\<close>

definition product_py :: "'a list \<Rightarrow> 'b list \<Rightarrow> ('a \<times> 'b) list" where
  "product_py xs ys = concat (map (\<lambda>x. map (\<lambda>y. (x, y)) ys) xs)"

definition enumerate_py :: "'a list \<Rightarrow> (int \<times> 'a) list" where
  "enumerate_py xs = zip (range_py (int (length xs))) xs"

text \<open>
  \<open>xs[i]\<close> on a list: a negative index counts from the end, anything outside
  raises IndexError. \<open>list_slot\<close> is the slot the index addresses.
\<close>

definition list_slot :: "'a list \<Rightarrow> int \<Rightarrow> nat option" where
  "list_slot xs i =
     (if 0 \<le> i \<and> i < int (length xs) then Some (nat i)
      else if i < 0 \<and> - int (length xs) \<le> i then Some (nat (int (length xs) + i))
      else None)"

definition list_getitem :: "'a list \<Rightarrow> int \<Rightarrow> error + 'a" where
  "list_getitem xs i =
     (case list_slot xs i of None \<Rightarrow> Inl IndexError | Some j \<Rightarrow> Inr (xs ! j))"

text \<open>\<open>d[k]\<close> on a dict raises KeyError for a missing key.\<close>

definition dict_getitem :: "('k \<times> 'v) list \<Rightarrow> 'k \<Rightarrow> error + 'v" where
  "dict_getitem d k = (case map_of d k of None \<Rightarrow> Inl KeyError | Some v \<Rightarrow> Inr v)"

text \<open>Assigning to a key that is present keeps its place in the dict.\<close>

fun dict_replace :: "('k \<times> 'v) list \<Rightarrow> 'k \<Rightarrow> 'v \<Rightarrow> ('k \<times> 'v) list" where
  "dict_replace [] k v = []"
| "dict_replace ((k', v') # d) k v =
     (if k' = k then (k', v) # d else (k', v') # dict_replace d k v)"

text \<open>\<open>c[t]\<close> on a Counter: a missing key reads as 0 and is not inserted.\<close>

definition counter_get :: "counter \<Rightarrow> int \<Rightarrow> int" where
  "counter_get c t = (case map_of c t of None \<Rightarrow> 0 | Some v \<Rightarrow> v)"

text \<open>\<open>c.update([x])\<close>: one more occurrence of \<open>x\<close>; a new key goes last.\<close>

fun counter_update :: "counter \<Rightarrow> int \<Rightarrow> counter" where
  "counter_update [] x = [(x, 1)]"
| "counter_update ((k, v) # c) x =
     (if k = x then (k, v + 1) # c else (k, v) # counter_update c x)"

subsection \<open>The library's random draws\<close>

text \<open>
  \<open>random.choice(range(k))\<close>: IndexError on an empty range, otherwise one of
  \<open>0, \<dots>, k - 1\<close>.
\<close>

definition random_choice_range :: "int \<Rightarrow> state \<Rightarrow> (error + int) \<times> state" where
  "random_choice_range k s =
     (if k \<le> 0 then (Inl IndexError, s)
      else (Inr (int (fst (rng_next (rng s))) mod k), s\<lparr>rng := snd (rng_next (rng s))\<rparr>))"

text \<open>
  \<open>numpy.random.dirichlet\<close> and \<open>numpy.random.choice\<close> are library code.
  \<open>dirichlet\<close> first converts its parameters to doubles. Python converts an int
  with rounding to nearest, ties to even, and raises OverflowError when the result
  would pass the largest double, \<open>2 ^ 1024 - 2 ^ 971\<close>: that is, from
  \<open>2 ^ 1024 - 2 ^ 970\<close> on, in absolute value.
\<close>

definition float_overflows :: "int \<Rightarrow> bool" where
  "float_overflows a \<longleftrightarrow> 2 ^ 1024 - 2 ^ 970 \<le> \<bar>a\<bar>"

text \<open>
  The floating-point probability vector is not computed. After the conversion
  \<open>dirichlet\<close> rejects a parameter that is not positive, and otherwise returns
  a vector with one entry per parameter, taken to be a proper probability vector
  with positive entries and kept here as its length. \<open>choice\<close> rejects an empty
  population or a vector of another length and otherwise returns the element at an
  index taken from the random source, so every element can be drawn.
\<close>

datatype pvector = PVector nat

definition dirichlet :: "int list \<Rightarrow> state \<Rightarrow> (error + pvector) \<times> state" where
  "dirichlet alpha s =
     (if list_ex float_overflows alpha then (Inl OverflowError, s)
      else if list_ex (\<lambda>a. a \<le> 0) alpha then (Inl ValueError, s)
      else (Inr (PVector (length alpha)), s))"

definition choice :: "int list \<Rightarrow> pvector \<Rightarrow> state \<Rightarrow> (error + int) \<times> state" where
  "choice a p s =
     (case p of PVector k \<Rightarrow>
        if a = [] \<or> k \<noteq> length a then (Inl ValueError, s)
        else (Inr (a ! (fst (rng_next (rng s)) mod length a)),
              s\<lparr>rng := snd (rng_next (rng s))\<rparr>))"

section \<open>\<open>TiledImageGenerator\<close>\<close>

definition adjacent_neighbors :: "position list" where
  "adjacent_neighbors = [(1, 0), (0, -1), (-1, 0), (0, 1)]"

definition diagonal_neighbors :: "position list" where
  "diagonal_neighbors = [(1, -1), (-1, -1), (-1, 1), (1, 1)]"

definition tuple_sum :: "position \<Rightarrow> position \<Rightarrow> position" where
  "tuple_sum a b = (fst a + fst b, snd a + snd b)"

subsection \<open>\<open>_compute_counts\<close>\<close>

text \<open>\<open>counts[tile][i].update([neighbor])\<close>\<close>

definition counts_update :: "table \<Rightarrow> int \<Rightarrow> int \<Rightarrow> int \<Rightarrow> error + table" where
  "counts_update counts tile i neighbor =
     (case list_slot counts tile of
        None \<Rightarrow> Inl IndexError
      | Some j \<Rightarrow>
          (case map_of (counts ! j) i of
             None \<Rightarrow> Inl KeyError
           | Some c \<Rightarrow>
               Inr (counts[j := dict_replace (counts ! j) i (counter_update c neighbor)])))"

text \<open>The inner loop over the eight enumerated offsets, for the cell \<open>p\<close> holding \<open>tile\<close>.\<close>

fun count_neighbors ::
  "grid \<Rightarrow> position \<Rightarrow> int \<Rightarrow> (int \<times> position) list \<Rightarrow> table \<Rightarrow> error + table" where
  "count_neighbors m p tile [] counts = Inr counts"
| "count_neighbors m p tile ((i, nb) # rest) counts =
     (case cells m (tuple_sum nb p) of
        None \<Rightarrow> count_neighbors m p tile rest counts
      | Some neighbor \<Rightarrow>
          (case counts_update counts tile i neighbor of
             Inl e \<Rightarrow> Inl e
           | Inr counts' \<Rightarrow> count_neighbors m p tile rest counts'))"

text \<open>The outer loop over the cells; \<open>self.mapping[(u, v)]\<close> raises KeyError on a hole.\<close>

fun count_cells :: "grid \<Rightarrow> position list \<Rightarrow> table \<Rightarrow> error + table" where
  "count_cells m [] counts = Inr counts"
| "count_cells m (p # ps) counts =
     (case cells m p of
        None \<Rightarrow> Inl KeyError
      | Some tile \<Rightarrow>
          (case count_neighbors m p tile
                  (enumerate_py (adjacent_neighbors @ diagonal_neighbors)) counts of
             Inl e \<Rightarrow> Inl e
           | Inr counts' \<Rightarrow> count_cells m ps counts'))"

definition compute_counts :: "grid \<Rightarrow> int \<Rightarrow> error + table" where
  "compute_counts m k =
     count_cells m (product_py (range_py (info_col m)) (range_py (info_row m)))
       (map (\<lambda>_. map (\<lambda>i. (i, [])) (range_py 8)) (range_py k))"

subsection \<open>\<open>wavefunction\<close>\<close>

text \<open>\<open>self.counts[tile][neighbor_id]\<close>\<close>

definition lookup_counts :: "state \<Rightarrow> int \<Rightarrow> int \<Rightarrow> error + counter" where
  "lookup_counts s tile d =
     (case list_getitem (self_counts s) tile of
        Inl e \<Rightarrow> Inl e
      | Inr row \<Rightarrow> dict_getitem row d)"

definition wavefunction :: "int \<Rightarrow> int \<Rightarrow> state \<Rightarrow> (error + int) \<times> state" where
  "wavefunction tile neighbor_id s =
     (case lookup_counts s tile neighbor_id of
        Inl e \<Rightarrow> (Inl e, s)
      | Inr c \<Rightarrow>
          (case dirichlet (map snd c) s of
             (Inl e, s1) \<Rightarrow> (Inl e, s1)
           | (Inr distribution, s1) \<Rightarrow> choice (map fst c) distribution s1))"

subsection \<open>\<open>coupled_markov_chain\<close>\<close>

text \<open>The first loop: the Counter of every (tile, direction) pair of the zip.\<close>

fun fetch_counts :: "state \<Rightarrow> (int \<times> int) list \<Rightarrow> error + counter list" where
  "fetch_counts s [] = Inr []"
| "fetch_counts s ((tile, d) # rest) =
     (case lookup_counts s tile d of
        Inl e \<Rightarrow> Inl e
      | Inr c \<Rightarrow>
          (case fetch_counts s rest of
             Inl e \<Rightarrow> Inl e
           | Inr cs \<Rightarrow> Inr (c # cs)))"

text \<open>
  \<open>valid_tiles.intersection_update(c)\<close> keeps the tiles that are keys of \<open>c\<close>.
  Python does not fix the order in which a set is iterated; the model lists
  \<open>valid_tiles\<close> in the key order of \<open>counts[0]\<close>.
\<close>

definition intersection_update :: "int list \<Rightarrow> counter \<Rightarrow> int list" where
  "intersection_update vt c = filter (\<lambda>t. t \<in> set (map fst c)) vt"

text \<open>\<open>set(counts[0])\<close> raises IndexError when no Counter was fetched.\<close>

definition valid_tiles_of :: "counter list \<Rightarrow> error + int list" where
  "valid_tiles_of cs =
     (case cs of
        [] \<Rightarrow> Inl IndexError
      | c0 # _ \<Rightarrow> Inr (fold (\<lambda>c vt. intersection_update vt c) cs (remdups (map fst c0))))"

text \<open>\<open>valid_tile_counts[t] += x\<close>, for a key that is present.\<close>

definition dict_add :: "counter \<Rightarrow> int \<Rightarrow> int \<Rightarrow> counter" where
  "dict_add d t x = map (\<lambda>(k, v). if k = t then (k, v + x) else (k, v)) d"

text \<open>The dict comprehension followed by the two nested loops.\<close>

definition valid_tile_counts_of :: "counter list \<Rightarrow> int list \<Rightarrow> counter" where
  "valid_tile_counts_of cs vt =
     fold (\<lambda>t d. fold (\<lambda>c d'. dict_add d' t (counter_get c t)) cs d) vt
       (map (\<lambda>t. (t, 0)) vt)"

definition coupled_markov_chain ::
  "int list \<Rightarrow> int list \<Rightarrow> state \<Rightarrow> (error + int) \<times> state" where
  "coupled_markov_chain tiles neighbors s =
     (case fetch_counts s (zip tiles neighbors) of
        Inl e \<Rightarrow> (Inl e, s)
      | Inr cs \<Rightarrow>
          (case valid_tiles_of cs of
             Inl e \<Rightarrow> (Inl e, s)
           | Inr vt \<Rightarrow>
               (if valid_tile_counts_of cs vt = [] then (Inl AssertionError, s)
                else
                  (case dirichlet (map snd (valid_tile_counts_of cs vt)) s of
                     (Inl e, s1) \<Rightarrow> (Inl e, s1)
                   | (Inr d, s1) \<Rightarrow> choice (map fst (valid_tile_counts_of cs vt)) d s1))))"

subsection \<open>\<open>generate\<close>\<close>

text \<open>Given a neighbor's offset, the direction index of this cell seen from the neighbor.\<close>

definition inverse_neighbor :: "(position \<times> int) list" where
  "inverse_neighbor = [((1, 0), 2), ((0, -1), 3), ((-1, 0), 0), ((0, 1), 1)]"

text \<open>
  The loop over \<open>self.adjacent_neighbors\<close> for the cell \<open>hk\<close>: the tiles of the
  neighbors already in the mapping, each with its direction index.
\<close>

fun gather :: "grid \<Rightarrow> position \<Rightarrow> position list \<Rightarrow> error + (int \<times> int) list" where
  "gather m hk [] = Inr []"
| "gather m hk (nb # rest) =
     (case cells m (tuple_sum hk nb) of
        None \<Rightarrow> gather m hk rest
      | Some t \<Rightarrow>
          (case dict_getitem inverse_neighbor nb of
             Inl e \<Rightarrow> Inl e
           | Inr d \<Rightarrow>
               (case gather m hk rest of
                  Inl e \<Rightarrow> Inl e
                | Inr tds \<Rightarrow> Inr ((t, d) # tds))))"

text \<open>One pass of the loop body of \<open>generate\<close>.\<close>

definition generate_cell :: "position \<Rightarrow> grid \<Rightarrow> state \<Rightarrow> (error + grid) \<times> state" where
  "generate_cell hk m s =
     (if cells m hk \<noteq> None then (Inr m, s)
      else
        (case gather m hk adjacent_neighbors of
           Inl e \<Rightarrow> (Inl e, s)
         | Inr tds \<Rightarrow>
             (case coupled_markov_chain (map fst tds) (map snd tds) s of
                (Inl e, s1) \<Rightarrow> (Inl e, s1)
              | (Inr t, s1) \<Rightarrow> (Inr (m\<lparr>cells := (cells m)(hk \<mapsto> t)\<rparr>), s1))))"

fun generate_loop :: "position list \<Rightarrow> grid \<Rightarrow> state \<Rightarrow> (error + grid) \<times> state" where
  "generate_loop [] m s = (Inr m, s)"
| "generate_loop (hk # rest) m s =
     (case generate_cell hk m s of
        (Inl e, s1) \<Rightarrow> (Inl e, s1)
      | (Inr m1, s1) \<Rightarrow> generate_loop rest m1 s1)"

definition generate :: "int \<Rightarrow> int \<Rightarrow> state \<Rightarrow> (error + grid) \<times> state" where
  "generate row col s =
     (case random_choice_range (self_n s) s of
        (Inl e, s1) \<Rightarrow> (Inl e, s1)
      | (Inr tile, s1) \<Rightarrow>
          generate_loop (product_py (range_py row) (range_py col))
            \<lparr>info_row = row, info_col = col, cells = [(0, 0) \<mapsto> tile]\<rparr> s1)"

subsection \<open>\<open>generate_2\<close>\<close>

definition generate_2 :: "state \<Rightarrow> (error + grid) \<times> state" where
  "generate_2 s =
     (case random_choice_range (self_n s) s of
        (Inl e, s1) \<Rightarrow> (Inl e, s1)
      | (Inr tile, s1) \<Rightarrow>
          (case wavefunction tile 7 s1 of
             (Inl e, s2) \<Rightarrow> (Inl e, s2)
           | (Inr t11, s2) \<Rightarrow>
               (case coupled_markov_chain [tile, t11] [2, 3] s2 of
                  (Inl e, s3) \<Rightarrow> (Inl e, s3)
                | (Inr t10, s3) \<Rightarrow>
                    (case coupled_markov_chain [tile, t11] [1, 0] s3 of
                       (Inl e, s4) \<Rightarrow> (Inl e, s4)
                     | (Inr t01, s4) \<Rightarrow>
                         (Inr \<lparr>info_row = 2, info_col = 2,
                               cells = [(0, 0) \<mapsto> tile, (1, 1) \<mapsto> t11,
                                        (1, 0) \<mapsto> t10, (0, 1) \<mapsto> t01]\<rparr>, s4)))))"

section \<open>A worked example\<close>

text \<open>
  A 2 by 2 training grid of four different tiles, the frequency tables
  \<open>_compute_counts\<close> builds from it, and a generator over them whose random
  source always draws 0.
\<close>

definition example_grid :: grid where
  "example_grid =
     \<lparr>info_row = 2, info_col = 2,
      cells = [(0, 0) \<mapsto> 0, (1, 0) \<mapsto> 1, (0, 1) \<mapsto> 2, (1, 1) \<mapsto> 3]\<rparr>"

definition example_counts :: table where
  "example_counts =
     [[(0, [(1, 1)]), (1, []), (2, []), (3, [(2, 1)]),
       (4, []), (5, []), (6, []), (7, [(3, 1)])],
      [(0, []), (1, []), (2, [(0, 1)]), (3, [(3, 1)]),
       (4, []), (5, []), (6, [(2, 1)]), (7, [])],
      [(0, [(3, 1)]), (1, [(0, 1)]), (2, []), (3, []),
       (4, [(1, 1)]), (5, []), (6, []), (7, [])],
      [(0, []), (1, [(1, 1)]), (2, [(2, 1)]), (3, []),
       (4, []), (5, [(0, 1)]), (6, []), (7, [])]]"

definition example_state :: state where
  "example_state =
     \<lparr>self_mapping = example_grid, self_n = 4, self_counts = example_counts,
      rng = (\<lambda>_. 0)\<rparr>"

text \<open>
  A second training grid, 2 rows by 6 columns, in which a cell can have more than
  one candidate, the tables \<open>_compute_counts\<close> builds from it, and a generator
  over them whose random source always draws 1.
\<close>

definition sampling_grid :: grid where
  "sampling_grid =
     \<lparr>info_row = 2, info_col = 6,
      cells = [(0, 0) \<mapsto> 4, (1, 0) \<mapsto> 3, (2, 0) \<mapsto> 4,
               (3, 0) \<mapsto> 3, (4, 0) \<mapsto> 4, (5, 0) \<mapsto> 4,
               (0, 1) \<mapsto> 0, (1, 1) \<mapsto> 1, (2, 1) \<mapsto> 0,
               (3, 1) \<mapsto> 2, (4, 1) \<mapsto> 0, (5, 1) \<mapsto> 1]\<rparr>"

definition sampling_counts :: table where
  "sampling_counts =
     [[(0, [(1, 2), (2, 1)]), (1, [(4, 3)]), (2, [(1, 1), (2, 1)]), (3, []),
       (4, [(3, 2), (4, 1)]), (5, [(3, 2)]), (6, []), (7, [])],
      [(0, [(0, 1)]), (1, [(3, 1), (4, 1)]), (2, [(0, 2)]), (3, []),
       (4, [(4, 1)]), (5, [(4, 2)]), (6, []), (7, [])],
      [(0, [(0, 1)]), (1, [(3, 1)]), (2, [(0, 1)]), (3, []),
       (4, [(4, 1)]), (5, [(4, 1)]), (6, []), (7, [])],
      [(0, [(4, 2)]), (1, []), (2, [(4, 2)]), (3, [(1, 1), (2, 1)]),
       (4, []), (5, []), (6, [(0, 2)]), (7, [(0, 2)])],
      [(0, [(3, 2), (4, 1)]), (1, []), (2, [(3, 2), (4, 1)]), (3, [(0, 3), (1, 1)]),
       (4, []), (5, []), (6, [(1, 1), (2, 1), (0, 1)]), (7, [(1, 2), (2, 1)])]]"

definition sampling_state :: state where
  "sampling_state =
     \<lparr>self_mapping = sampling_grid, self_n = 5, self_counts = sampling_counts,
      rng = (\<lambda>_. 1)\<rparr>"

section \<open>Reading the frequency tables\<close>

text \<open>
  The shape \<open>_compute_counts\<close> gives \<open>self.counts\<close>: one dict per tile, each
  with the keys 0 to 7 in order.
\<close>

definition table_well_formed :: "int \<Rightarrow> table \<Rightarrow> bool" where
  "table_well_formed k T \<longleftrightarrow> length T = nat k \<and> (\<forall>row\<in>set T. map fst row = range_py 8)"

text \<open>\<open>counts[t][d][t']\<close> for a tile index that is not negative.\<close>

definition count_at :: "table \<Rightarrow> int \<Rightarrow> int \<Rightarrow> int \<Rightarrow> int" where
  "count_at T t d t' = (case map_of (T ! nat t) d of None \<Rightarrow> 0 | Some c \<Rightarrow> counter_get c t')"

section \<open>The Adjacency Model: \<open>_compute_counts\<close>\<close>

lemma set_range_py: "set (range_py k) = {0..<k}"
  by (auto simp: range_py_def)

lemma distinct_range_py: "distinct (range_py k)"
  by (simp add: range_py_def)

lemma length_range_py: "length (range_py k) = nat k"
  by (simp add: range_py_def)

lemma sorted_range_py: "sorted_wrt (<) (range_py k)"
  by (simp add: range_py_def strict_sorted_iff)

lemma range_py_8: "range_py 8 = [0, 1, 2, 3, 4, 5, 6, 7]"
  by code_simp

lemma set_product_py: "set (product_py xs ys) = set xs \<times> set ys"
  by (auto simp: product_py_def)

lemma product_py_Cons: "product_py (x # xs) ys = map (\<lambda>y. (x, y)) ys @ product_py xs ys"
  by (simp add: product_py_def)

lemma product_py_product: "product_py xs ys = List.product xs ys"
  by (induction xs) (simp_all add: product_py_def)

lemma distinct_product_py: "distinct xs \<Longrightarrow> distinct ys \<Longrightarrow> distinct (product_py xs ys)"
  by (simp add: product_py_product distinct_product)

lemma counter_get_update:
  "counter_get (counter_update c x) y = counter_get c y + (if x = y then 1 else 0)"
  by (induction c) (auto simp: counter_get_def)

lemma dict_replace_keys: "map fst (dict_replace d k v) = map fst d"
  by (induction d) auto

lemma map_of_dict_replace:
  "map_of (dict_replace d k v) k' =
     (if k' = k \<and> k \<in> set (map fst d) then Some v else map_of d k')"
proof (induction d)
  case Nil
  show ?case by simp
next
  case (Cons kv d)
  obtain a b where kv: "kv = (a, b)" by (cases kv)
  show ?case unfolding kv using Cons by force
qed

lemma well_formed_row:
  assumes "table_well_formed k T" and "0 \<le> t" and "t < k" and "0 \<le> d" and "d < 8"
  shows "\<exists>c. map_of (T ! nat t) d = Some c"
proof -
  have "T ! nat t \<in> set T" using assms(1-3) by (simp add: table_well_formed_def)
  then have "map fst (T ! nat t) = range_py 8"
    using assms(1) by (simp add: table_well_formed_def)
  moreover have "d \<in> set (range_py 8)" using assms(4,5) by (simp add: set_range_py)
  ultimately have "d \<in> fst ` set (T ! nat t)" by (metis list.set_map)
  then show ?thesis by (metis map_of_eq_None_iff not_None_eq)
qed

lemma counts_update_census:
  assumes wf: "table_well_formed k T" and tile: "0 \<le> tile" "tile < k"
    and i: "0 \<le> i" "i < 8"
  shows "\<exists>T'. counts_update T tile i nb = Inr T' \<and> table_well_formed k T' \<and>
           (\<forall>t d t'. 0 \<le> t \<and> t < k \<longrightarrow>
              count_at T' t d t' =
                count_at T t d t' + (if t = tile \<and> d = i \<and> t' = nb then 1 else 0))"
proof -
  let ?j = "nat tile"
  have len: "length T = nat k" using wf by (simp add: table_well_formed_def)
  have j: "?j < length T" using tile len by simp
  have slot: "list_slot T tile = Some ?j" using tile len by (simp add: list_slot_def)
  obtain c where c: "map_of (T ! ?j) i = Some c"
    using well_formed_row[OF wf tile i] by blast
  let ?row = "dict_replace (T ! ?j) i (counter_update c nb)"
  let ?T = "T[?j := ?row]"
  have upd: "counts_update T tile i nb = Inr ?T"
    by (simp add: counts_update_def slot c)
  have keys: "map fst ?row = range_py 8"
    using wf j by (simp add: dict_replace_keys table_well_formed_def)
  have "set ?T \<subseteq> insert ?row (set T)" by (rule set_update_subset_insert)
  with wf keys have wf': "table_well_formed k ?T"
    by (auto simp: table_well_formed_def)
  have ikey: "i \<in> set (map fst (T ! ?j))"
    using c by (metis list.set_map map_of_eq_None_iff option.distinct(1))
  have "count_at ?T t d t' =
      count_at T t d t' + (if t = tile \<and> d = i \<and> t' = nb then 1 else 0)"
    if t: "0 \<le> t" "t < k" for t d t'
  proof (cases "t = tile")
    case True
    have "?T ! nat t = ?row" using True j by simp
    then show ?thesis
      using True c ikey
      by (simp add: count_at_def map_of_dict_replace counter_get_update)
  next
    case False
    then have "nat t \<noteq> ?j" using t tile by simp
    then have "?T ! nat t = T ! nat t" by simp
    with False show ?thesis by (simp add: count_at_def)
  qed
  with upd wf' show ?thesis by blast
qed

lemma count_neighbors_census:
  assumes "table_well_formed k T" and "0 \<le> tile" and "tile < k"
    and "\<forall>x\<in>set offs. 0 \<le> fst x \<and> fst x < 8"
  shows "\<exists>T'. count_neighbors m p tile offs T = Inr T' \<and> table_well_formed k T' \<and>
           (\<forall>t d t'. 0 \<le> t \<and> t < k \<longrightarrow>
              count_at T' t d t' = count_at T t d t' +
                int (length (filter (\<lambda>x. t = tile \<and> d = fst x \<and>
                                        cells m (tuple_sum (snd x) p) = Some t') offs)))"
  using assms(1,4)
proof (induction offs arbitrary: T)
  case Nil
  then show ?case by simp
next
  case (Cons x offs)
  obtain i nb where x: "x = (i, nb)" by (cases x)
  have i: "0 \<le> i" "i < 8" using Cons.prems(2) x by simp_all
  have rest: "\<forall>x\<in>set offs. 0 \<le> fst x \<and> fst x < 8" using Cons.prems(2) by simp
  show ?case
  proof (cases "cells m (tuple_sum nb p)")
    case None
    from Cons.IH[OF Cons.prems(1) rest] obtain T' where
      "count_neighbors m p tile offs T = Inr T'" "table_well_formed k T'"
      and c: "\<forall>t d t'. 0 \<le> t \<and> t < k \<longrightarrow>
              count_at T' t d t' = count_at T t d t' +
                int (length (filter (\<lambda>x. t = tile \<and> d = fst x \<and>
                                        cells m (tuple_sum (snd x) p) = Some t') offs))"
      by blast
    then show ?thesis unfolding x using None by simp
  next
    case (Some neighbor)
    from counts_update_census[OF Cons.prems(1) assms(2,3) i, of neighbor] obtain T1 where
      u: "counts_update T tile i neighbor = Inr T1" and wf1: "table_well_formed k T1"
      and c1: "\<forall>t d t'. 0 \<le> t \<and> t < k \<longrightarrow>
              count_at T1 t d t' =
                count_at T t d t' + (if t = tile \<and> d = i \<and> t' = neighbor then 1 else 0)"
      by blast
    from Cons.IH[OF wf1 rest] obtain T' where
      r: "count_neighbors m p tile offs T1 = Inr T'" and wf': "table_well_formed k T'"
      and c: "\<forall>t d t'. 0 \<le> t \<and> t < k \<longrightarrow>
              count_at T' t d t' = count_at T1 t d t' +
                int (length (filter (\<lambda>x. t = tile \<and> d = fst x \<and>
                                        cells m (tuple_sum (snd x) p) = Some t') offs))"
      by blast
    have "count_neighbors m p tile (x # offs) T = Inr T'"
      unfolding x using Some u r by simp
    moreover have "\<forall>t d t'. 0 \<le> t \<and> t < k \<longrightarrow>
              count_at T' t d t' = count_at T t d t' +
                int (length (filter (\<lambda>x. t = tile \<and> d = fst x \<and>
                                        cells m (tuple_sum (snd x) p) = Some t') (x # offs)))"
      unfolding x using c c1 Some by auto
    ultimately show ?thesis using wf' by blast
  qed
qed

lemma enumerate_neighbors:
  "enumerate_py (adjacent_neighbors @ diagonal_neighbors) =
     [(0, (1, 0)), (1, (0, -1)), (2, (-1, 0)), (3, (0, 1)),
      (4, (1, -1)), (5, (-1, -1)), (6, (-1, 1)), (7, (1, 1))]"
  by code_simp

lemma enumerate_neighbors_once:
  assumes "0 \<le> d" and "d < 8"
  shows "length (filter (\<lambda>x. d = fst x \<and> Q (snd x))
            (enumerate_py (adjacent_neighbors @ diagonal_neighbors))) =
         (if Q ((adjacent_neighbors @ diagonal_neighbors) ! nat d) then 1 else 0)"
proof -
  from assms have "d = 0 \<or> d = 1 \<or> d = 2 \<or> d = 3 \<or> d = 4 \<or> d = 5 \<or> d = 6 \<or> d = 7"
    by arith
  then show ?thesis
    unfolding enumerate_neighbors
    by (elim disjE) (simp_all add: adjacent_neighbors_def diagonal_neighbors_def)
qed

lemma count_cell_census:
  assumes wf: "table_well_formed k T" and tile: "0 \<le> tile" "tile < k"
  shows "\<exists>T'. count_neighbors m p tile
                 (enumerate_py (adjacent_neighbors @ diagonal_neighbors)) T = Inr T' \<and>
           table_well_formed k T' \<and>
           (\<forall>t d t'. 0 \<le> t \<and> t < k \<and> 0 \<le> d \<and> d < 8 \<longrightarrow>
              count_at T' t d t' = count_at T t d t' +
                (if t = tile \<and>
                    cells m (tuple_sum ((adjacent_neighbors @ diagonal_neighbors) ! nat d) p)
                      = Some t'
                 then 1 else 0))"
proof -
  let ?offs = "enumerate_py (adjacent_neighbors @ diagonal_neighbors)"
  have "\<forall>x\<in>set ?offs. 0 \<le> fst x \<and> fst x < 8"
    unfolding enumerate_neighbors by simp
  from count_neighbors_census[OF wf tile this, of m p] obtain T' where
    r: "count_neighbors m p tile ?offs T = Inr T'" and wf': "table_well_formed k T'"
    and c: "\<forall>t d t'. 0 \<le> t \<and> t < k \<longrightarrow>
              count_at T' t d t' = count_at T t d t' +
                int (length (filter (\<lambda>x. t = tile \<and> d = fst x \<and>
                                        cells m (tuple_sum (snd x) p) = Some t') ?offs))"
    by blast
  have "count_at T' t d t' = count_at T t d t' +
          (if t = tile \<and>
              cells m (tuple_sum ((adjacent_neighbors @ diagonal_neighbors) ! nat d) p) = Some t'
           then 1 else 0)"
    if t: "0 \<le> t" "t < k" and d: "0 \<le> d" "d < 8" for t d t'
  proof (cases "t = tile")
    case True
    have "length (filter (\<lambda>x. t = tile \<and> d = fst x \<and>
                             cells m (tuple_sum (snd x) p) = Some t') ?offs) =
          length (filter (\<lambda>x. d = fst x \<and> cells m (tuple_sum (snd x) p) = Some t') ?offs)"
      using True by simp
    also have "\<dots> =
        (if cells m (tuple_sum ((adjacent_neighbors @ diagonal_neighbors) ! nat d) p) = Some t'
         then 1 else 0)"
      by (rule enumerate_neighbors_once[OF d, of "\<lambda>nb. cells m (tuple_sum nb p) = Some t'"])
    finally show ?thesis using c t True by simp
  next
    case False
    then have "filter (\<lambda>x. t = tile \<and> d = fst x \<and>
                          cells m (tuple_sum (snd x) p) = Some t') ?offs = []"
      by simp
    with c t False show ?thesis by simp
  qed
  with r wf' show ?thesis by blast
qed

lemma count_cells_census:
  assumes "table_well_formed k T"
    and "\<forall>p\<in>set ps. cells m p \<noteq> None"
    and tiles: "\<forall>p t. cells m p = Some t \<longrightarrow> 0 \<le> t \<and> t < k"
  shows "\<exists>T'. count_cells m ps T = Inr T' \<and> table_well_formed k T' \<and>
           (\<forall>t d t'. 0 \<le> t \<and> t < k \<and> 0 \<le> d \<and> d < 8 \<longrightarrow>
              count_at T' t d t' = count_at T t d t' +
                int (length (filter (\<lambda>p. cells m p = Some t \<and>
                    cells m (tuple_sum ((adjacent_neighbors @ diagonal_neighbors) ! nat d) p)
                      = Some t') ps)))"
  using assms(1,2)
proof (induction ps arbitrary: T)
  case Nil
  then show ?case by simp
next
  case (Cons p ps)
  from Cons.prems(2) obtain tile where p: "cells m p = Some tile" by auto
  have tile: "0 \<le> tile" "tile < k" using tiles p by blast+
  from count_cell_census[OF Cons.prems(1) tile, of m p] obtain T1 where
    r1: "count_neighbors m p tile
           (enumerate_py (adjacent_neighbors @ diagonal_neighbors)) T = Inr T1"
    and wf1: "table_well_formed k T1"
    and c1: "\<forall>t d t'. 0 \<le> t \<and> t < k \<and> 0 \<le> d \<and> d < 8 \<longrightarrow>
              count_at T1 t d t' = count_at T t d t' +
                (if t = tile \<and>
                    cells m (tuple_sum ((adjacent_neighbors @ diagonal_neighbors) ! nat d) p)
                      = Some t'
                 then 1 else 0)"
    by blast
  have rest: "\<forall>p\<in>set ps. cells m p \<noteq> None" using Cons.prems(2) by simp
  from Cons.IH[OF wf1 rest] obtain T' where
    r: "count_cells m ps T1 = Inr T'" and wf': "table_well_formed k T'"
    and c: "\<forall>t d t'. 0 \<le> t \<and> t < k \<and> 0 \<le> d \<and> d < 8 \<longrightarrow>
              count_at T' t d t' = count_at T1 t d t' +
                int (length (filter (\<lambda>p. cells m p = Some t \<and>
                    cells m (tuple_sum ((adjacent_neighbors @ diagonal_neighbors) ! nat d) p)
                      = Some t') ps))"
    by blast
  have "count_cells m (p # ps) T = Inr T'" using p r1 r by simp
  moreover have "\<forall>t d t'. 0 \<le> t \<and> t < k \<and> 0 \<le> d \<and> d < 8 \<longrightarrow>
              count_at T' t d t' = count_at T t d t' +
                int (length (filter (\<lambda>p. cells m p = Some t \<and>
                    cells m (tuple_sum ((adjacent_neighbors @ diagonal_neighbors) ! nat d) p)
                      = Some t') (p # ps)))"
    using c c1 p by auto
  ultimately show ?case using wf' by blast
qed

lemma initial_table:
  "table_well_formed k (map (\<lambda>_. map (\<lambda>i. (i, [])) (range_py 8)) (range_py k))"
  "0 \<le> t \<Longrightarrow> t < k \<Longrightarrow>
     count_at (map (\<lambda>_. map (\<lambda>i. (i, [])) (range_py 8)) (range_py k)) t d t' = 0"
proof -
  show "table_well_formed k (map (\<lambda>_. map (\<lambda>i. (i, [])) (range_py 8)) (range_py k))"
    by (auto simp: table_well_formed_def length_range_py comp_def)
  assume "0 \<le> t" and "t < k"
  then have "nat t < length (range_py k)" by (simp add: length_range_py)
  then have row: "map (\<lambda>_. map (\<lambda>i. (i, [])) (range_py 8)) (range_py k) ! nat t =
      map (\<lambda>i. (i, [])) (range_py 8)"
    by simp
  have "(case map_of (map (\<lambda>i. (i, [])) (range_py 8)) d of
           None \<Rightarrow> 0 | Some c \<Rightarrow> counter_get c t') = 0"
    by (simp add: range_py_8 counter_get_def)
  then show "count_at (map (\<lambda>_. map (\<lambda>i. (i, [])) (range_py 8)) (range_py k)) t d t' = 0"
    unfolding count_at_def row .
qed

lemma example_counts_computed: "compute_counts example_grid 4 = Inr example_counts"
  by code_simp

lemma sampling_counts_computed: "compute_counts sampling_grid 5 = Inr sampling_counts"
  by code_simp

text \<open>
  Claim C5. For a complete training grid whose tiles are ids below \<open>k\<close>,
  \<open>_compute_counts\<close> returns a table, and for every tile \<open>t\<close>, direction
  \<open>d\<close> from 0 to 7 and tile \<open>t'\<close> the count \<open>counts[t][d][t']\<close> is the number of
  positions \<open>p\<close> that hold \<open>t\<close> and whose neighbor at the offset of \<open>d\<close> is in
  the grid and holds \<open>t'\<close>. A neighbor position outside the grid adds nothing.
\<close>

theorem compute_counts_census:
  assumes complete: "dom (cells m) = {0..<info_col m} \<times> {0..<info_row m}"
    and tiles: "\<forall>p t. cells m p = Some t \<longrightarrow> 0 \<le> t \<and> t < k"
  shows "\<exists>counts. compute_counts m k = Inr counts \<and>
     (\<forall>t d t'. 0 \<le> t \<and> t < k \<and> 0 \<le> d \<and> d < 8 \<longrightarrow>
        (\<exists>row c. list_getitem counts t = Inr row \<and> dict_getitem row d = Inr c \<and>
           counter_get c t' =
             int (card {p. cells m p = Some t \<and>
                   cells m (tuple_sum ((adjacent_neighbors @ diagonal_neighbors) ! nat d) p)
                     = Some t'})))"
proof -
  let ?ps = "product_py (range_py (info_col m)) (range_py (info_row m))"
  let ?T0 = "map (\<lambda>_. map (\<lambda>i. (i, [])) (range_py 8)) (range_py k)"
  have set_ps: "set ?ps = dom (cells m)"
    unfolding complete by (simp add: set_product_py set_range_py)
  have dist: "distinct ?ps"
    by (intro distinct_product_py distinct_range_py)
  have filled: "\<forall>p\<in>set ?ps. cells m p \<noteq> None"
    unfolding set_ps by blast
  from count_cells_census[OF initial_table(1) filled tiles] obtain T where
    r: "count_cells m ?ps ?T0 = Inr T" and wf: "table_well_formed k T"
    and c: "\<forall>t d t'. 0 \<le> t \<and> t < k \<and> 0 \<le> d \<and> d < 8 \<longrightarrow>
              count_at T t d t' = count_at ?T0 t d t' +
                int (length (filter (\<lambda>p. cells m p = Some t \<and>
                    cells m (tuple_sum ((adjacent_neighbors @ diagonal_neighbors) ! nat d) p)
                      = Some t') ?ps))"
    by blast
  have cc: "compute_counts m k = Inr T"
    using r by (simp add: compute_counts_def)
  have "\<exists>row c. list_getitem T t = Inr row \<and> dict_getitem row d = Inr c \<and>
           counter_get c t' =
             int (card {p. cells m p = Some t \<and>
                   cells m (tuple_sum ((adjacent_neighbors @ diagonal_neighbors) ! nat d) p)
                     = Some t'})"
    if t: "0 \<le> t" "t < k" and d: "0 \<le> d" "d < 8" for t d t'
  proof -
    let ?P = "\<lambda>p. cells m p = Some t \<and>
        cells m (tuple_sum ((adjacent_neighbors @ diagonal_neighbors) ! nat d) p) = Some t'"
    have len: "length T = nat k" using wf by (simp add: table_well_formed_def)
    have g: "list_getitem T t = Inr (T ! nat t)"
      using t len by (simp add: list_getitem_def list_slot_def)
    obtain c0 where c0: "map_of (T ! nat t) d = Some c0"
      using well_formed_row[OF wf t d] by blast
    then have dg: "dict_getitem (T ! nat t) d = Inr c0"
      by (simp add: dict_getitem_def)
    have "{p. ?P p} \<inter> set ?ps = {p. ?P p}"
      unfolding set_ps by auto
    then have "length (filter ?P ?ps) = card {p. ?P p}"
      using distinct_length_filter[OF dist, of ?P] by simp
    moreover have "count_at T t d t' = int (length (filter ?P ?ps))"
      using c t d initial_table(2)[OF t, of d t'] by simp
    ultimately have "counter_get c0 t' = int (card {p. ?P p})"
      using c0 by (simp add: count_at_def)
    with g dg show ?thesis by blast
  qed
  with cc show ?thesis by blast
qed

theorem compute_counts_census_witness:
  "dom (cells example_grid) = {0..<info_col example_grid} \<times> {0..<info_row example_grid} \<and>
   ran (cells example_grid) \<subseteq> {0..<4} \<and>
   compute_counts example_grid 4 = Inr example_counts \<and>
   card {p. cells example_grid p = Some 0 \<and>
            cells example_grid
              (tuple_sum ((adjacent_neighbors @ diagonal_neighbors) ! nat 0) p) = Some 1} = 1"
proof -
  have "{0..<2 :: int} = {0, 1}" by auto
  then have h1: "dom (cells example_grid) =
      {0..<info_col example_grid} \<times> {0..<info_row example_grid}"
    by (auto simp: example_grid_def split: if_splits)
  have h2: "\<forall>p t. cells example_grid p = Some t \<longrightarrow> 0 \<le> t \<and> t < 4"
    by (auto simp: example_grid_def split: if_splits)
  then have h2': "ran (cells example_grid) \<subseteq> {0..<4}"
    by (auto simp: ran_def)
  from compute_counts_census[OF h1 h2] obtain counts where
    cc: "compute_counts example_grid 4 = Inr counts"
    and census: "\<forall>t d t'. 0 \<le> t \<and> t < 4 \<and> 0 \<le> d \<and> d < 8 \<longrightarrow>
        (\<exists>row c. list_getitem counts t = Inr row \<and> dict_getitem row d = Inr c \<and>
           counter_get c t' =
             int (card {p. cells example_grid p = Some t \<and>
                   cells example_grid
                     (tuple_sum ((adjacent_neighbors @ diagonal_neighbors) ! nat d) p)
                     = Some t'}))"
    by blast
  have ex: "compute_counts example_grid 4 = Inr example_counts"
    by (rule example_counts_computed)
  with cc have counts: "counts = example_counts" by simp
  from census[rule_format, of 0 0 1] obtain row c where
    row: "list_getitem example_counts 0 = Inr row" and c: "dict_getitem row 0 = Inr c"
    and n: "counter_get c 1 =
             int (card {p. cells example_grid p = Some 0 \<and>
                   cells example_grid
                     (tuple_sum ((adjacent_neighbors @ diagonal_neighbors) ! nat 0) p)
                     = Some 1})"
    unfolding counts by auto
  have "row = example_counts ! 0"
    using row by (simp add: list_getitem_def list_slot_def example_counts_def)
  then have "c = [(1, 1)]"
    using c by (simp add: dict_getitem_def example_counts_def)
  then have "counter_get c 1 = 1" by (simp add: counter_get_def)
  with n have "card {p. cells example_grid p = Some 0 \<and>
            cells example_grid
              (tuple_sum ((adjacent_neighbors @ diagonal_neighbors) ! nat 0) p) = Some 1} = 1"
    by simp
  with h1 h2' ex show ?thesis by (intro conjI)
qed

section \<open>The Categorical Sampler: \<open>wavefunction\<close>\<close>

lemma choice_member:
  "choice a p s = (Inr t, s') \<Longrightarrow> t \<in> set a"
  by (cases p) (auto simp: choice_def split: if_splits)

text \<open>
  Claim C6, as amended. When the Counter \<open>counts[tile][neighbor_id]\<close> has exactly
  one key, with a positive count, \<open>wavefunction\<close> returns that key whatever the
  state of the random source, provided the count converts to a double, that is,
  stays below \<open>2 ^ 1024 - 2 ^ 970\<close>; from there on it raises OverflowError.
\<close>

theorem wavefunction_single_key:
  assumes "lookup_counts s tile neighbor_id = Inr [(t, c)]" and "0 < c"
  shows "fst (wavefunction tile neighbor_id s) =
           (if c < 2 ^ 1024 - 2 ^ 970 then Inr t else Inl OverflowError)"
proof -
  have "float_overflows c \<longleftrightarrow> \<not> c < 2 ^ 1024 - 2 ^ 970"
    using assms(2) by (simp add: float_overflows_def not_less)
  then show ?thesis
    using assms by (simp add: wavefunction_def dirichlet_def choice_def)
qed

theorem wavefunction_single_key_witness:
  "lookup_counts example_state 0 7 = Inr [(3, 1)] \<and> (0 :: int) < 1 \<and>
   (1 :: int) < 2 ^ 1024 - 2 ^ 970 \<and>
   fst (wavefunction 0 7 example_state) = Inr 3"
proof -
  have h: "lookup_counts example_state 0 7 = Inr [(3, 1)]" by code_simp
  have b: "(1 :: int) < 2 ^ 1024 - 2 ^ 970" by simp
  show ?thesis using h b wavefunction_single_key[OF h] by simp
qed

text \<open>
  Claim C6 as stated fails for a count that does not convert to a double: with
  the count of the one key of \<open>counts[0][7]\<close> set to \<open>2 ^ 1024\<close> in the example
  tables, \<open>wavefunction\<close> raises OverflowError and returns no tile.
\<close>

theorem wavefunction_overflow_counterexample:
  "lookup_counts
     (example_state\<lparr>self_counts :=
        example_counts[0 := dict_replace (example_counts ! 0) 7 [(3, 2 ^ 1024)]]\<rparr>) 0 7
     = Inr [(3, 2 ^ 1024)] \<and>
   (0 :: int) < 2 ^ 1024 \<and>
   fst (wavefunction 0 7
     (example_state\<lparr>self_counts :=
        example_counts[0 := dict_replace (example_counts ! 0) 7 [(3, 2 ^ 1024)]]\<rparr>))
     = Inl OverflowError"
proof -
  have l: "lookup_counts
     (example_state\<lparr>self_counts :=
        example_counts[0 := dict_replace (example_counts ! 0) 7 [(3, 2 ^ 1024)]]\<rparr>) 0 7
     = Inr [(3, 2 ^ 1024)]"
    by (simp add: lookup_counts_def list_getitem_def list_slot_def dict_getitem_def
        example_counts_def)
  have o: "float_overflows (2 ^ 1024)"
    by (simp add: float_overflows_def)
  show ?thesis
    using l o by (simp add: wavefunction_def dirichlet_def)
qed

section \<open>The Constraint Intersector: \<open>coupled_markov_chain\<close>\<close>

subsection \<open>The candidates and their summed counts\<close>

lemma intersection_update_set:
  "set (intersection_update vt c) = set vt \<inter> set (map fst c)"
  by (auto simp: intersection_update_def)

lemma fold_intersection_set:
  "set (fold (\<lambda>c vt. intersection_update vt c) cs vt) = set vt \<inter> (\<Inter>c\<in>set cs. set (map fst c))"
  by (induction cs arbitrary: vt) (auto simp: intersection_update_set)

lemma fold_intersection_distinct:
  "distinct vt \<Longrightarrow> distinct (fold (\<lambda>c vt. intersection_update vt c) cs vt)"
  by (induction cs arbitrary: vt) (auto simp: intersection_update_def)

lemma valid_tiles_of_set:
  assumes "valid_tiles_of cs = Inr vt"
  shows "set vt = (\<Inter>c\<in>set cs. set (map fst c))" and "distinct vt"
proof -
  obtain c0 rest where cs: "cs = c0 # rest"
    using assms by (cases cs) (auto simp: valid_tiles_of_def)
  have vt: "vt = fold (\<lambda>c vt. intersection_update vt c) cs (remdups (map fst c0))"
    using assms cs by (simp add: valid_tiles_of_def)
  show "distinct vt"
    unfolding vt by (rule fold_intersection_distinct) simp
  show "set vt = (\<Inter>c\<in>set cs. set (map fst c))"
    unfolding vt fold_intersection_set using cs by auto
qed

lemma valid_tiles_of_nonempty:
  "cs \<noteq> [] \<Longrightarrow> \<exists>vt. valid_tiles_of cs = Inr vt"
  by (cases cs) (auto simp: valid_tiles_of_def)

lemma dict_add_zero: "dict_add d t 0 = d"
  by (induction d) (auto simp: dict_add_def)

lemma dict_add_add: "dict_add (dict_add d t x) t y = dict_add d t (x + y)"
  by (induction d) (auto simp: dict_add_def)

lemma fold_dict_add:
  "fold (\<lambda>c d'. dict_add d' t (f c)) cs d = dict_add d t (sum_list (map f cs))"
proof (induction cs arbitrary: d)
  case Nil
  show ?case by (simp add: dict_add_zero)
next
  case (Cons c cs)
  have "dict_add (dict_add d t (f c)) t (sum_list (map f cs)) = dict_add d t (f c + sum_list (map f cs))"
    by (rule dict_add_add)
  then show ?case using Cons by simp
qed

lemma dict_add_keys: "map fst (dict_add d t x) = map fst d"
  by (induction d) (auto simp: dict_add_def)

lemma map_of_dict_add:
  "map_of (dict_add d t x) k = (case map_of d k of None \<Rightarrow> None | Some v \<Rightarrow> Some (if k = t then v + x else v))"
  by (induction d) (auto simp: dict_add_def)

lemma fold_outer_keys:
  "map fst (fold (\<lambda>t d. dict_add d t (g t)) ts d) = map fst d"
  by (induction ts arbitrary: d) (auto simp: dict_add_keys)

lemma fold_outer_map_of:
  "distinct ts \<Longrightarrow> map_of (fold (\<lambda>t d. dict_add d t (g t)) ts d) k =
     (case map_of d k of None \<Rightarrow> None | Some v \<Rightarrow> Some (if k \<in> set ts then v + g k else v))"
proof (induction ts arbitrary: d)
  case Nil
  then show ?case by (simp split: option.splits)
next
  case (Cons t ts)
  then show ?case by (auto simp: map_of_dict_add split: option.splits)
qed

lemma valid_tile_counts_of_keys:
  "map fst (valid_tile_counts_of cs vt) = vt"
  by (simp add: valid_tile_counts_of_def fold_dict_add fold_outer_keys comp_def)

lemma map_of_zero_init: "map_of (map (\<lambda>t. (t, 0::int)) vt) k = (if k \<in> set vt then Some 0 else None)"
  by (induction vt) auto

lemma valid_tile_counts_of_sum:
  "distinct vt \<Longrightarrow> map_of (valid_tile_counts_of cs vt) t =
     (if t \<in> set vt then Some (sum_list (map (\<lambda>c. counter_get c t) cs)) else None)"
  by (simp add: valid_tile_counts_of_def fold_dict_add fold_outer_map_of map_of_zero_init)

lemma snd_by_map_of:
  "distinct (map fst d) \<Longrightarrow> map snd d = map (\<lambda>k. the (map_of d k)) (map fst d)"
proof (induction d)
  case Nil
  show ?case by simp
next
  case (Cons kv d)
  have "map (\<lambda>k. the (map_of (kv # d) k)) (map fst d) = map (\<lambda>k. the (map_of d k)) (map fst d)"
    using Cons.prems by (cases kv) (auto intro!: map_cong)
  with Cons show ?case by (cases kv) simp
qed

lemma valid_tile_counts_of_values:
  assumes "distinct vt"
  shows "map snd (valid_tile_counts_of cs vt) =
           map (\<lambda>t. sum_list (map (\<lambda>c. counter_get c t) cs)) vt"
proof -
  have "map snd (valid_tile_counts_of cs vt) =
          map (\<lambda>k. the (map_of (valid_tile_counts_of cs vt) k)) vt"
    using snd_by_map_of[of "valid_tile_counts_of cs vt"] assms
    by (simp add: valid_tile_counts_of_keys)
  also have "\<dots> = map (\<lambda>t. sum_list (map (\<lambda>c. counter_get c t) cs)) vt"
    by (rule map_cong) (simp_all add: valid_tile_counts_of_sum[OF assms])
  finally show ?thesis .
qed

subsection \<open>The fetched Counters\<close>

lemma fetch_counts_map:
  "fetch_counts s zs = Inr cs \<Longrightarrow>
     cs = map (\<lambda>z. projr (lookup_counts s (fst z) (snd z))) zs \<and>
     (\<forall>z\<in>set zs. \<not> isl (lookup_counts s (fst z) (snd z)))"
proof (induction zs arbitrary: cs)
  case Nil
  then show ?case by simp
next
  case (Cons z zs)
  obtain tile d where z: "z = (tile, d)" by (cases z)
  from Cons.prems obtain c cs0 where
    c: "lookup_counts s tile d = Inr c" and cs0: "fetch_counts s zs = Inr cs0"
    and cs: "cs = c # cs0"
    unfolding z by (auto split: sum.splits)
  from Cons.IH[OF cs0] show ?case unfolding z cs using c by simp
qed

lemma fetch_counts_total:
  "\<forall>z\<in>set zs. \<not> isl (lookup_counts s (fst z) (snd z)) \<Longrightarrow>
     fetch_counts s zs = Inr (map (\<lambda>z. projr (lookup_counts s (fst z) (snd z))) zs)"
proof (induction zs)
  case Nil
  then show ?case by simp
next
  case (Cons z zs)
  obtain tile d where z: "z = (tile, d)" by (cases z)
  from Cons.prems obtain c where c: "lookup_counts s tile d = Inr c"
    unfolding z by (cases "lookup_counts s tile d") auto
  from Cons.prems have "fetch_counts s zs =
      Inr (map (\<lambda>z. projr (lookup_counts s (fst z) (snd z))) zs)"
    by (intro Cons.IH) simp
  then show ?case unfolding z using c by simp
qed

lemma fetch_counts_all2:
  "list_all2 (\<lambda>z c. lookup_counts s (fst z) (snd z) = Inr c) zs cs \<Longrightarrow>
     fetch_counts s zs = Inr cs"
proof (induction zs cs rule: list_all2_induct)
  case Nil
  show ?case by simp
next
  case (Cons z zs c cs)
  then show ?case by (cases z) simp
qed

lemma fetch_counts_permuted:
  assumes "mset zs' = mset zs" and "fetch_counts s zs = Inr cs"
  shows "\<exists>cs'. fetch_counts s zs' = Inr cs' \<and> mset cs' = mset cs"
proof -
  let ?f = "\<lambda>z. projr (lookup_counts s (fst z) (snd z))"
  from fetch_counts_map[OF assms(2)]
  have cs: "cs = map ?f zs" and ok: "\<forall>z\<in>set zs. \<not> isl (lookup_counts s (fst z) (snd z))"
    by simp_all
  have "set zs' = set zs" using assms(1) by (rule mset_eq_setD)
  with ok have "fetch_counts s zs' = Inr (map ?f zs')"
    by (intro fetch_counts_total) simp
  moreover have "mset (map ?f zs') = mset cs"
    unfolding cs using assms(1) by (metis mset_map)
  ultimately show ?thesis by blast
qed

lemma sum_list_permuted:
  fixes f :: "'a \<Rightarrow> int"
  assumes "mset xs = mset ys"
  shows "sum_list (map f xs) = sum_list (map f ys)"
proof -
  have "sum_mset (mset (map f xs)) = sum_mset (mset (map f ys))"
    using assms by (metis mset_map)
  then show ?thesis by (simp only: sum_mset_sum_list)
qed

subsection \<open>The result\<close>

lemma coupled_markov_chain_unfold:
  assumes "fetch_counts s (zip tiles neighbors) = Inr cs" and "valid_tiles_of cs = Inr vt"
  shows "coupled_markov_chain tiles neighbors s =
           (if vt = [] then (Inl AssertionError, s)
            else (case dirichlet (map (\<lambda>t. sum_list (map (\<lambda>c. counter_get c t) cs)) vt) s of
                    (Inl e, s1) \<Rightarrow> (Inl e, s1)
                  | (Inr d, s1) \<Rightarrow> choice vt d s1))"
proof -
  have d: "distinct vt" using assms(2) by (rule valid_tiles_of_set)
  have e: "valid_tile_counts_of cs vt = [] \<longleftrightarrow> vt = []"
    using valid_tile_counts_of_keys[of cs vt] by (metis map_is_Nil_conv)
  show ?thesis
    by (simp add: coupled_markov_chain_def assms e valid_tile_counts_of_keys
        valid_tile_counts_of_values[OF d] split: prod.splits sum.splits)
qed

lemma coupled_markov_chain_member:
  assumes "fetch_counts s (zip tiles neighbors) = Inr cs"
    and "coupled_markov_chain tiles neighbors s = (Inr t, s')"
  shows "cs \<noteq> [] \<and> t \<in> (\<Inter>c\<in>set cs. set (map fst c))"
proof -
  have ne: "cs \<noteq> []"
    using assms by (auto simp: coupled_markov_chain_def valid_tiles_of_def)
  then obtain vt where vt: "valid_tiles_of cs = Inr vt"
    using valid_tiles_of_nonempty by blast
  have "t \<in> set vt"
    using assms(2) unfolding coupled_markov_chain_unfold[OF assms(1) vt]
    by (auto split: if_splits prod.splits sum.splits dest: choice_member)
  then show ?thesis using ne valid_tiles_of_set(1)[OF vt] by simp
qed

text \<open>
  Claim C1. Let \<open>cs\<close> be the Counters \<open>counts[tile][dir]\<close> of a non-empty list of
  constraints. Then \<open>coupled_markov_chain\<close> fetches exactly \<open>cs\<close>; its candidates
  \<open>valid_tiles\<close> are the tiles that are keys of every Counter of \<open>cs\<close>; the keys and
  values of \<open>valid_tile_counts\<close> are these candidates, each with the sum of its
  counts over \<open>cs\<close>; the call fails its assertion when there is no candidate and
  otherwise is the draw of \<open>choice\<close> among the candidates, with the vector
  \<open>dirichlet\<close> returns for the summed counts; and every tile it returns is a key
  of every Counter of \<open>cs\<close>.
\<close>

theorem coupled_markov_chain_intersection:
  assumes "list_all2 (\<lambda>z c. lookup_counts s (fst z) (snd z) = Inr c) (zip tiles neighbors) cs"
    and "cs \<noteq> []"
  shows "fetch_counts s (zip tiles neighbors) = Inr cs \<and>
    (\<exists>vt. valid_tiles_of cs = Inr vt \<and> distinct vt \<and>
       set vt = (\<Inter>c\<in>set cs. set (map fst c)) \<and>
       map fst (valid_tile_counts_of cs vt) = vt \<and>
       map snd (valid_tile_counts_of cs vt) =
         map (\<lambda>t. sum_list (map (\<lambda>c. counter_get c t) cs)) vt \<and>
       coupled_markov_chain tiles neighbors s =
         (if vt = [] then (Inl AssertionError, s)
          else (case dirichlet (map (\<lambda>t. sum_list (map (\<lambda>c. counter_get c t) cs)) vt) s of
                  (Inl e, s1) \<Rightarrow> (Inl e, s1)
                | (Inr d, s1) \<Rightarrow> choice vt d s1))) \<and>
    (\<forall>t s'. coupled_markov_chain tiles neighbors s = (Inr t, s') \<longrightarrow>
       t \<in> (\<Inter>c\<in>set cs. set (map fst c)))"
proof -
  have f: "fetch_counts s (zip tiles neighbors) = Inr cs"
    using assms(1) by (rule fetch_counts_all2)
  obtain vt where vt: "valid_tiles_of cs = Inr vt"
    using valid_tiles_of_nonempty[OF assms(2)] by blast
  have d: "distinct vt" using vt by (rule valid_tiles_of_set)
  have i: "set vt = (\<Inter>c\<in>set cs. set (map fst c))" using vt by (rule valid_tiles_of_set)
  have m: "\<forall>t s'. coupled_markov_chain tiles neighbors s = (Inr t, s') \<longrightarrow>
       t \<in> (\<Inter>c\<in>set cs. set (map fst c))"
    using coupled_markov_chain_member[OF f] by blast
  have "valid_tiles_of cs = Inr vt \<and> distinct vt \<and>
       set vt = (\<Inter>c\<in>set cs. set (map fst c)) \<and>
       map fst (valid_tile_counts_of cs vt) = vt \<and>
       map snd (valid_tile_counts_of cs vt) =
         map (\<lambda>t. sum_list (map (\<lambda>c. counter_get c t) cs)) vt \<and>
       coupled_markov_chain tiles neighbors s =
         (if vt = [] then (Inl AssertionError, s)
          else (case dirichlet (map (\<lambda>t. sum_list (map (\<lambda>c. counter_get c t) cs)) vt) s of
                  (Inl e, s1) \<Rightarrow> (Inl e, s1)
                | (Inr d, s1) \<Rightarrow> choice vt d s1))"
    using vt d i valid_tile_counts_of_keys[of cs vt] valid_tile_counts_of_values[OF d, of cs]
      coupled_markov_chain_unfold[OF f vt]
    by (intro conjI)
  then have "\<exists>vt. valid_tiles_of cs = Inr vt \<and> distinct vt \<and>
       set vt = (\<Inter>c\<in>set cs. set (map fst c)) \<and>
       map fst (valid_tile_counts_of cs vt) = vt \<and>
       map snd (valid_tile_counts_of cs vt) =
         map (\<lambda>t. sum_list (map (\<lambda>c. counter_get c t) cs)) vt \<and>
       coupled_markov_chain tiles neighbors s =
         (if vt = [] then (Inl AssertionError, s)
          else (case dirichlet (map (\<lambda>t. sum_list (map (\<lambda>c. counter_get c t) cs)) vt) s of
                  (Inl e, s1) \<Rightarrow> (Inl e, s1)
                | (Inr d, s1) \<Rightarrow> choice vt d s1))"
    by (rule exI)
  with f m show ?thesis by (intro conjI)
qed

theorem coupled_markov_chain_intersection_witness:
  "list_all2 (\<lambda>z c. lookup_counts sampling_state (fst z) (snd z) = Inr c)
      (zip [4, 0] [6, 0]) [[(1, 1), (2, 1), (0, 1)], [(1, 2), (2, 1)]] \<and>
   valid_tiles_of [[(1, 1), (2, 1), (0, 1)], [(1, 2), (2, 1)]] = Inr [1, 2] \<and>
   valid_tile_counts_of [[(1, 1), (2, 1), (0, 1)], [(1, 2), (2, 1)]] [1, 2] = [(1, 3), (2, 2)] \<and>
   coupled_markov_chain [4, 0] [6, 0] sampling_state =
     choice [1, 2] (PVector 2) sampling_state \<and>
   fst (coupled_markov_chain [4, 0] [6, 0] sampling_state) = Inr 2 \<and>
   2 \<in> (\<Inter>c\<in>set [[(1 :: int, 1 :: int), (2, 1), (0, 1)], [(1, 2), (2, 1)]]. set (map fst c))"
proof -
  let ?cs = "[[(1, 1), (2, 1), (0, 1)], [(1, 2), (2, 1)]] :: counter list"
  have h: "list_all2 (\<lambda>z c. lookup_counts sampling_state (fst z) (snd z) = Inr c)
      (zip [4, 0] [6, 0]) ?cs"
    by code_simp
  have ne: "?cs \<noteq> []" by simp
  have v: "valid_tiles_of ?cs = Inr [1, 2]" by code_simp
  have w: "valid_tile_counts_of ?cs [1, 2] = [(1, 3), (2, 2)]" by code_simp
  note inst = coupled_markov_chain_intersection[OF h ne]
  from inst obtain vt where vt: "valid_tiles_of ?cs = Inr vt"
    and weights: "map snd (valid_tile_counts_of ?cs vt) =
         map (\<lambda>t. sum_list (map (\<lambda>c. counter_get c t) ?cs)) vt"
    and call: "coupled_markov_chain [4, 0] [6, 0] sampling_state =
         (if vt = [] then (Inl AssertionError, sampling_state)
          else (case dirichlet (map (\<lambda>t. sum_list (map (\<lambda>c. counter_get c t) ?cs)) vt)
                       sampling_state of
                  (Inl e, s1) \<Rightarrow> (Inl e, s1)
                | (Inr d, s1) \<Rightarrow> choice vt d s1))"
    by blast
  from vt v have vt12: "vt = [1, 2]" by simp
  have sums: "map (\<lambda>t. sum_list (map (\<lambda>c. counter_get c t) ?cs)) [1, 2] = [3, 2]"
    using weights w unfolding vt12 by simp
  have dir: "dirichlet [3, 2] sampling_state = (Inr (PVector 2), sampling_state)"
    by (simp add: dirichlet_def float_overflows_def)
  have c: "coupled_markov_chain [4, 0] [6, 0] sampling_state =
      choice [1, 2] (PVector 2) sampling_state"
    using call unfolding vt12 sums dir by simp
  have r: "fst (choice [1, 2] (PVector 2) sampling_state) = Inr 2"
    by (simp add: choice_def rng_next_def sampling_state_def)
  then have r': "fst (coupled_markov_chain [4, 0] [6, 0] sampling_state) = Inr 2"
    using c by simp
  then have "coupled_markov_chain [4, 0] [6, 0] sampling_state =
      (Inr 2, snd (coupled_markov_chain [4, 0] [6, 0] sampling_state))"
    by (metis prod.collapse)
  then have "2 \<in> (\<Inter>c\<in>set ?cs. set (map fst c))"
    using inst[THEN conjunct2, THEN conjunct2, rule_format] by blast
  with h v w c r' show ?thesis by (intro conjI)
qed

text \<open>
  Claim C2. For a non-empty list of constraints whose Counters have no key in
  common, \<open>coupled_markov_chain\<close> fails its assertion: the result is
  \<open>AssertionError\<close>, no tile is returned and no draw is made.
\<close>

theorem coupled_markov_chain_contradiction:
  assumes "list_all2 (\<lambda>z c. lookup_counts s (fst z) (snd z) = Inr c) (zip tiles neighbors) cs"
    and "cs \<noteq> []"
    and "(\<Inter>c\<in>set cs. set (map fst c)) = {}"
  shows "coupled_markov_chain tiles neighbors s = (Inl AssertionError, s)"
proof -
  have f: "fetch_counts s (zip tiles neighbors) = Inr cs"
    using assms(1) by (rule fetch_counts_all2)
  obtain vt where vt: "valid_tiles_of cs = Inr vt"
    using valid_tiles_of_nonempty[OF assms(2)] by blast
  have "set vt = {}" using valid_tiles_of_set(1)[OF vt] assms(3) by simp
  then show ?thesis
    unfolding coupled_markov_chain_unfold[OF f vt] by simp
qed

theorem coupled_markov_chain_contradiction_witness:
  "list_all2 (\<lambda>z c. lookup_counts example_state (fst z) (snd z) = Inr c)
      (zip [0, 0] [0, 3]) [[(1, 1)], [(2, 1)]] \<and>
   (\<Inter>c\<in>set [[(1 :: int, 1 :: int)], [(2, 1)]]. set (map fst c)) = {} \<and>
   coupled_markov_chain [0, 0] [0, 3] example_state = (Inl AssertionError, example_state)"
proof -
  have h: "list_all2 (\<lambda>z c. lookup_counts example_state (fst z) (snd z) = Inr c)
      (zip [0, 0] [0, 3]) [[(1, 1)], [(2, 1)]]"
    by code_simp
  have e: "(\<Inter>c\<in>set [[(1 :: int, 1 :: int)], [(2, 1)]]. set (map fst c)) = {}"
    by simp
  show ?thesis
    using h e coupled_markov_chain_contradiction[OF h _ e] by simp
qed

text \<open>
  Claim C10. When the constraints of a non-empty list are reordered,
  \<open>coupled_markov_chain\<close> still fetches a Counter for each, and computes the same
  set of candidates and, for every tile, the same entry of \<open>valid_tile_counts\<close>.
\<close>

theorem coupled_markov_chain_permutation:
  assumes "mset (zip tiles' neighbors') = mset (zip tiles neighbors)"
    and "fetch_counts s (zip tiles neighbors) = Inr cs"
    and "valid_tiles_of cs = Inr vt"
  shows "\<exists>cs' vt'. fetch_counts s (zip tiles' neighbors') = Inr cs' \<and>
           valid_tiles_of cs' = Inr vt' \<and> set vt' = set vt \<and>
           (\<forall>t. map_of (valid_tile_counts_of cs' vt') t = map_of (valid_tile_counts_of cs vt) t)"
proof -
  obtain cs' where f': "fetch_counts s (zip tiles' neighbors') = Inr cs'"
    and p: "mset cs' = mset cs"
    using fetch_counts_permuted[OF assms(1,2)] by blast
  have "cs \<noteq> []" using assms(3) by (auto simp: valid_tiles_of_def)
  with p have "cs' \<noteq> []" by auto
  then obtain vt' where vt': "valid_tiles_of cs' = Inr vt'"
    using valid_tiles_of_nonempty by blast
  have sets: "set cs' = set cs" using p by (rule mset_eq_setD)
  have s: "set vt' = set vt"
    using valid_tiles_of_set(1)[OF vt'] valid_tiles_of_set(1)[OF assms(3)] sets by simp
  have "map_of (valid_tile_counts_of cs' vt') t = map_of (valid_tile_counts_of cs vt) t" for t
    using valid_tile_counts_of_sum[OF valid_tiles_of_set(2)[OF vt'], of cs' t]
      valid_tile_counts_of_sum[OF valid_tiles_of_set(2)[OF assms(3)], of cs t]
      sum_list_permuted[OF p, of "\<lambda>c. counter_get c t"] s
    by simp
  with f' vt' s show ?thesis by blast
qed

theorem coupled_markov_chain_permutation_witness:
  "mset (zip [3, 0] [1, 0 :: int]) = mset (zip [0, 3 :: int] [0, 1]) \<and>
   fetch_counts example_state (zip [0, 3] [0, 1]) = Inr [[(1, 1)], [(1, 1)]] \<and>
   valid_tiles_of [[(1, 1)], [(1, 1)]] = Inr [1] \<and>
   (\<exists>cs' vt'. fetch_counts example_state (zip [3, 0] [1, 0]) = Inr cs' \<and>
      valid_tiles_of cs' = Inr vt' \<and> set vt' = set [1] \<and>
      (\<forall>t. map_of (valid_tile_counts_of cs' vt') t =
            map_of (valid_tile_counts_of [[(1, 1)], [(1, 1)]] [1]) t))"
proof -
  have p: "mset (zip [3, 0] [1, 0 :: int]) = mset (zip [0, 3 :: int] [0, 1])" by simp
  have f: "fetch_counts example_state (zip [0, 3] [0, 1]) = Inr [[(1, 1)], [(1, 1)]]"
    by code_simp
  have v: "valid_tiles_of [[(1, 1)], [(1, 1)]] = Inr [1]" by code_simp
  show ?thesis
    using p f v coupled_markov_chain_permutation[OF p f v] by (intro conjI)
qed

section \<open>The row-major scan: \<open>generate\<close>\<close>

lemma sorted_product_py:
  fixes xs :: "int list" and ys :: "int list"
  assumes "sorted_wrt (<) xs" and "sorted_wrt (<) ys"
  shows "sorted_wrt (\<lambda>a b. fst a < fst b \<or> fst a = fst b \<and> snd a < snd b) (product_py xs ys)"
  using assms(1)
proof (induction xs)
  case Nil
  show ?case by (simp add: product_py_def)
next
  case (Cons x xs)
  have row: "sorted_wrt (\<lambda>a b. fst a < fst b \<or> fst a = fst b \<and> snd a < snd b)
               (map (\<lambda>y. (x, y)) ys)"
    using assms(2) by (simp add: sorted_wrt_map)
  have rest: "sorted_wrt (\<lambda>a b. fst a < fst b \<or> fst a = fst b \<and> snd a < snd b)
               (product_py xs ys)"
    using Cons by simp
  have cross: "\<forall>a\<in>set (map (\<lambda>y. (x, y)) ys). \<forall>b\<in>set (product_py xs ys).
                 fst a < fst b \<or> fst a = fst b \<and> snd a < snd b"
    using Cons.prems by (auto simp: set_product_py)
  show ?case
    unfolding product_py_Cons sorted_wrt_append using row rest cross by blast
qed

lemma scan_earlier_in_prefix:
  fixes ps :: "position list"
  assumes s: "sorted_wrt (\<lambda>a b. fst a < fst b \<or> fst a = fst b \<and> snd a < snd b) ps"
    and ps: "ps = pre @ hk # post"
    and a: "a \<in> set ps" and lt: "fst a < fst hk \<or> fst a = fst hk \<and> snd a < snd hk"
  shows "a \<in> set pre"
proof -
  have "\<forall>b\<in>set post. fst hk < fst b \<or> fst hk = fst b \<and> snd hk < snd b"
    using s unfolding ps by (simp add: sorted_wrt_append)
  with lt have "a \<notin> set post" by auto
  moreover have "a \<noteq> hk" using lt by auto
  ultimately show ?thesis using a unfolding ps by simp
qed

lemma scan_prefix_earlier:
  fixes ps :: "position list"
  assumes s: "sorted_wrt (\<lambda>a b. fst a < fst b \<or> fst a = fst b \<and> snd a < snd b) ps"
    and ps: "ps = pre @ hk # post"
  shows "hk \<notin> set pre"
proof -
  have "\<forall>a\<in>set pre. fst a < fst hk \<or> fst a = fst hk \<and> snd a < snd hk"
    using s unfolding ps by (simp add: sorted_wrt_append)
  then show ?thesis by auto
qed

lemma generate_cell_dom:
  assumes "generate_cell hk m s = (Inr m', s')"
  shows "dom (cells m') = insert hk (dom (cells m))"
    and "info_row m' = info_row m" and "info_col m' = info_col m"
  using assms
  by (auto simp: generate_cell_def split: if_splits sum.splits prod.splits)

lemma generate_loop_dom:
  "generate_loop ps m s = (Inr m', s') \<Longrightarrow>
     dom (cells m') = dom (cells m) \<union> set ps \<and>
     info_row m' = info_row m \<and> info_col m' = info_col m"
proof (induction ps arbitrary: m s)
  case Nil
  then show ?case by simp
next
  case (Cons hk ps)
  from Cons.prems obtain m1 s1 where
    c: "generate_cell hk m s = (Inr m1, s1)" and l: "generate_loop ps m1 s1 = (Inr m', s')"
    by (auto split: sum.splits prod.splits)
  from Cons.IH[OF l] generate_cell_dom[OF c] show ?case by auto
qed

lemma generate_loop_append:
  "generate_loop (xs @ ys) m s =
     (case generate_loop xs m s of
        (Inl e, s1) \<Rightarrow> (Inl e, s1)
      | (Inr m1, s1) \<Rightarrow> generate_loop ys m1 s1)"
  by (induction xs arbitrary: m s) (auto split: sum.splits prod.splits)

lemma gather_adjacent:
  "gather m hk adjacent_neighbors =
     Inr (map (\<lambda>nb. (the (cells m (tuple_sum hk nb)), the (map_of inverse_neighbor nb)))
            (filter (\<lambda>nb. cells m (tuple_sum hk nb) \<noteq> None) adjacent_neighbors))"
  by (auto simp: adjacent_neighbors_def inverse_neighbor_def dict_getitem_def
      split: option.splits)

lemma scan_cell_has_neighbor:
  assumes ps: "product_py (range_py row) (range_py col) = pre @ hk # post"
    and run: "generate_loop pre \<lparr>info_row = row, info_col = col, cells = [(0, 0) \<mapsto> tile]\<rparr> s0
                = (Inr m, s)"
    and seed: "hk \<noteq> (0, 0)"
  shows "cells m hk = None"
    and "\<exists>td tds. gather m hk adjacent_neighbors = Inr (td # tds)"
proof -
  let ?ps = "product_py (range_py row) (range_py col)"
  have sorted: "sorted_wrt (\<lambda>a b. fst a < fst b \<or> fst a = fst b \<and> snd a < snd b) ?ps"
    by (intro sorted_product_py sorted_range_py)
  have "hk \<in> set ?ps" unfolding ps by simp
  then have bounds: "0 \<le> fst hk" "fst hk < row" "0 \<le> snd hk" "snd hk < col"
    by (auto simp: set_product_py set_range_py)
  have dom: "dom (cells m) = insert (0, 0) (set pre)"
    using generate_loop_dom[OF run] by simp
  have "hk \<notin> set pre" using sorted ps by (rule scan_prefix_earlier)
  with seed dom show "cells m hk = None" by (auto simp: dom_def)
  have "\<exists>nb\<in>set adjacent_neighbors. tuple_sum hk nb \<in> set pre"
  proof (cases "0 < snd hk")
    case True
    have a: "(fst hk, snd hk - 1) \<in> set ?ps"
      using bounds True by (auto simp: set_product_py set_range_py)
    have "(fst hk, snd hk - 1) \<in> set pre"
      by (rule scan_earlier_in_prefix[OF sorted ps a]) simp
    moreover have "tuple_sum hk (0, -1) = (fst hk, snd hk - 1)"
      by (simp add: tuple_sum_def)
    ultimately show ?thesis by (auto simp: adjacent_neighbors_def)
  next
    case False
    with bounds seed have pos: "0 < fst hk" by (cases hk) auto
    have a: "(fst hk - 1, snd hk) \<in> set ?ps"
      using bounds pos by (auto simp: set_product_py set_range_py)
    have "(fst hk - 1, snd hk) \<in> set pre"
      by (rule scan_earlier_in_prefix[OF sorted ps a]) simp
    moreover have "tuple_sum hk (-1, 0) = (fst hk - 1, snd hk)"
      by (simp add: tuple_sum_def)
    ultimately show ?thesis by (auto simp: adjacent_neighbors_def)
  qed
  then obtain nb where nb: "nb \<in> set adjacent_neighbors" and "tuple_sum hk nb \<in> set pre"
    by blast
  then have "tuple_sum hk nb \<in> dom (cells m)" unfolding dom by simp
  then have "cells m (tuple_sum hk nb) \<noteq> None" by blast
  with nb
  have "filter (\<lambda>nb. cells m (tuple_sum hk nb) \<noteq> None) adjacent_neighbors \<noteq> []"
    by (auto simp: filter_empty_conv)
  then obtain x xs where
    "filter (\<lambda>nb. cells m (tuple_sum hk nb) \<noteq> None) adjacent_neighbors = x # xs"
    by (cases "filter (\<lambda>nb. cells m (tuple_sum hk nb) \<noteq> None) adjacent_neighbors") auto
  then show "\<exists>td tds. gather m hk adjacent_neighbors = Inr (td # tds)"
    unfolding gather_adjacent by simp
qed

text \<open>
  Claim C7. Take the scan of \<open>generate\<close> at the moment it reaches a cell \<open>hk\<close>
  other than the seed: the cells \<open>pre\<close> before it have been passed without an
  error, leaving the mapping \<open>m\<close>. Then \<open>hk\<close> is still empty, the neighbors
  gathered for it are at least one, and the scan goes on from there.
\<close>

theorem generate_neighbors_nonempty:
  assumes ps: "product_py (range_py row) (range_py col) = pre @ hk # post"
    and run: "generate_loop pre \<lparr>info_row = row, info_col = col, cells = [(0, 0) \<mapsto> tile]\<rparr> s0
                = (Inr m, s)"
    and seed: "hk \<noteq> (0, 0)"
  shows "cells m hk = None \<and>
         (\<exists>td tds. gather m hk adjacent_neighbors = Inr (td # tds)) \<and>
         generate_loop (product_py (range_py row) (range_py col))
             \<lparr>info_row = row, info_col = col, cells = [(0, 0) \<mapsto> tile]\<rparr> s0
           = generate_loop (hk # post) m s"
proof -
  have "generate_loop (product_py (range_py row) (range_py col))
          \<lparr>info_row = row, info_col = col, cells = [(0, 0) \<mapsto> tile]\<rparr> s0
          = generate_loop (hk # post) m s"
    unfolding ps generate_loop_append run by simp
  with scan_cell_has_neighbor[OF ps run seed] show ?thesis by (intro conjI)
qed

theorem generate_neighbors_nonempty_witness:
  "product_py (range_py 2) (range_py 2) = [(0, 0)] @ (0, 1) # [(1, 0), (1, 1)] \<and>
   generate_loop [(0, 0)] \<lparr>info_row = 2, info_col = 2, cells = [(0, 0) \<mapsto> 0]\<rparr> example_state
     = (Inr \<lparr>info_row = 2, info_col = 2, cells = [(0, 0) \<mapsto> 0]\<rparr>, example_state) \<and>
   cells \<lparr>info_row = 2, info_col = 2, cells = [(0, 0) \<mapsto> 0]\<rparr> (0, 1) = None \<and>
   (\<exists>td tds. gather \<lparr>info_row = 2, info_col = 2, cells = [(0, 0) \<mapsto> 0]\<rparr> (0, 1)
        adjacent_neighbors = Inr (td # tds))"
proof -
  have p: "product_py (range_py 2) (range_py 2) = [(0, 0)] @ (0, 1) # [(1, 0), (1, 1)]"
    by code_simp
  have r: "generate_loop [(0, 0)] \<lparr>info_row = 2, info_col = 2, cells = [(0, 0) \<mapsto> 0]\<rparr>
      example_state = (Inr \<lparr>info_row = 2, info_col = 2, cells = [(0, 0) \<mapsto> 0]\<rparr>, example_state)"
    by (simp add: generate_cell_def)
  have n: "(0, 1) \<noteq> (0 :: int, 0 :: int)" by simp
  show ?thesis
    using p r generate_neighbors_nonempty[OF p r n] by (intro conjI) simp_all
qed

lemma coupled_markov_chain_empty:
  "coupled_markov_chain [] neighbors s = (Inl IndexError, s)"
  by (simp add: coupled_markov_chain_def valid_tiles_of_def)







lemma generate_keys:
  assumes "generate row col s = (Inr g, s')"
  shows "dom (cells g) = insert (0, 0) ({0..<row} \<times> {0..<col})"
    and "info_row g = row" and "info_col g = col"
proof -
  from assms obtain tile s1 where
    "generate_loop (product_py (range_py row) (range_py col))
       \<lparr>info_row = row, info_col = col, cells = [(0, 0) \<mapsto> tile]\<rparr> s1 = (Inr g, s')"
    by (auto simp: generate_def split: sum.splits prod.splits)
  from generate_loop_dom[OF this]
  show "dom (cells g) = insert (0, 0) ({0..<row} \<times> {0..<col})"
    and "info_row g = row" and "info_col g = col"
    by (simp_all add: set_product_py set_range_py)
qed

text \<open>
  Claim C3 at the input \<open>generate(1, 2)\<close>, on the tables built from the example
  grid. The mapping returned declares one row and two columns, and its keys are
  \<open>(0, 0)\<close> and \<open>(0, 1)\<close>: the first component of a key runs over the rows, so
  the cell of column 1 and row 0 is missing and a cell of row 1 is filled.
\<close>

theorem generate_1_2_keys:
  "(case fst (generate 1 2 example_state) of
      Inl e \<Rightarrow> False
    | Inr g \<Rightarrow> info_row g = 1 \<and> info_col g = 2 \<and>
        cells g (0, 0) = Some 0 \<and> cells g (0, 1) = Some 2 \<and> cells g (1, 0) = None)"
  by code_simp

section \<open>The diagonal bootstrap: \<open>generate_2\<close>\<close>

text \<open>
  Claim C4 on the tables built from the example grid, seed tile 0. For the cell
  \<open>(1, 0)\<close> \<open>generate_2\<close> passes the directions \<open>[2, 3]\<close>: the Counter of the
  tiles left of the seed is empty and the call fails its assertion, so \<open>generate_2\<close>
  fails. With the directions \<open>[0, 1]\<close>, whose offsets carry \<open>(0, 0)\<close> and
  \<open>(1, 1)\<close> onto \<open>(1, 0)\<close>, the same call returns tile 1, the tile the training
  grid has there.
\<close>

theorem generate_2_example_directions:
  "fst (wavefunction 0 7 example_state) = Inr 3 \<and>
   tuple_sum (0, 0) (adjacent_neighbors ! 2) = (-1, 0) \<and>
   tuple_sum (1, 1) (adjacent_neighbors ! 3) = (1, 2) \<and>
   tuple_sum (0, 0) (adjacent_neighbors ! 0) = (1, 0) \<and>
   tuple_sum (1, 1) (adjacent_neighbors ! 1) = (1, 0) \<and>
   fst (coupled_markov_chain [0, 3] [2, 3] example_state) = Inl AssertionError \<and>
   fst (coupled_markov_chain [0, 3] [0, 1] example_state) = Inr 1 \<and>
   fst (generate_2 example_state) = Inl AssertionError"
proof -
  have "(case fst (generate_2 example_state) of
           Inl e \<Rightarrow> e = AssertionError | Inr g \<Rightarrow> False)"
    by code_simp
  then have "fst (generate_2 example_state) = Inl AssertionError"
    by (cases "fst (generate_2 example_state)") simp_all
  moreover have "fst (wavefunction 0 7 example_state) = Inr 3 \<and>
      tuple_sum (0, 0) (adjacent_neighbors ! 2) = (-1, 0) \<and>
      tuple_sum (1, 1) (adjacent_neighbors ! 3) = (1, 2) \<and>
      tuple_sum (0, 0) (adjacent_neighbors ! 0) = (1, 0) \<and>
      tuple_sum (1, 1) (adjacent_neighbors ! 1) = (1, 0) \<and>
      fst (coupled_markov_chain [0, 3] [2, 3] example_state) = Inl AssertionError \<and>
      fst (coupled_markov_chain [0, 3] [0, 1] example_state) = Inr 1"
    by code_simp
  ultimately show ?thesis by simp
qed

section \<open>The frequency tables are only read\<close>

lemma random_choice_range_counts:
  "random_choice_range k s = (r, s1) \<Longrightarrow> self_counts s1 = self_counts s"
  by (auto simp: random_choice_range_def split: if_splits)

lemma dirichlet_counts:
  "dirichlet alpha s = (r, s1) \<Longrightarrow> self_counts s1 = self_counts s"
  by (auto simp: dirichlet_def split: if_splits)

lemma choice_counts:
  "choice a p s = (r, s1) \<Longrightarrow> self_counts s1 = self_counts s"
  by (cases p) (auto simp: choice_def split: if_splits)

lemma wavefunction_counts:
  "wavefunction tile d s = (r, s1) \<Longrightarrow> self_counts s1 = self_counts s"
  by (auto simp: wavefunction_def split: sum.splits prod.splits
      dest!: dirichlet_counts choice_counts)

lemma coupled_markov_chain_counts:
  "coupled_markov_chain tiles neighbors s = (r, s1) \<Longrightarrow> self_counts s1 = self_counts s"
  by (auto simp: coupled_markov_chain_def split: sum.splits prod.splits if_splits
      dest!: dirichlet_counts choice_counts)

lemma generate_cell_counts:
  "generate_cell hk m s = (r, s1) \<Longrightarrow> self_counts s1 = self_counts s"
  by (auto simp: generate_cell_def split: sum.splits prod.splits if_splits
      dest!: coupled_markov_chain_counts)

lemma generate_loop_counts:
  "generate_loop ps m s = (r, s1) \<Longrightarrow> self_counts s1 = self_counts s"
proof (induction ps arbitrary: m s)
  case Nil
  then show ?case by simp
next
  case (Cons hk ps)
  obtain r0 s0 where c: "generate_cell hk m s = (r0, s0)" by (cases "generate_cell hk m s")
  have s0: "self_counts s0 = self_counts s" using c by (rule generate_cell_counts)
  show ?case
  proof (cases r0)
    case (Inl e)
    with Cons.prems c s0 show ?thesis by simp
  next
    case (Inr m1)
    with Cons.prems c have "generate_loop ps m1 s0 = (r, s1)" by simp
    then have "self_counts s1 = self_counts s0" by (rule Cons.IH)
    with s0 show ?thesis by simp
  qed
qed

lemma generate_counts:
  "generate row col s = (r, s1) \<Longrightarrow> self_counts s1 = self_counts s"
  by (auto simp: generate_def split: sum.splits prod.splits
      dest!: random_choice_range_counts generate_loop_counts)

lemma generate_2_counts:
  "generate_2 s = (r, s1) \<Longrightarrow> self_counts s1 = self_counts s"
  by (auto simp: generate_2_def split: sum.splits prod.splits
      dest!: random_choice_range_counts wavefunction_counts coupled_markov_chain_counts)

text \<open>
  Claim C9. \<open>wavefunction\<close>, \<open>coupled_markov_chain\<close>, \<open>generate\<close> and
  \<open>generate_2\<close> return the state with \<open>self.counts\<close> as they found it, whether
  they return a value or raise.
\<close>

theorem generation_preserves_counts:
  "self_counts (snd (wavefunction tile d s)) = self_counts s \<and>
   self_counts (snd (coupled_markov_chain tiles neighbors s)) = self_counts s \<and>
   self_counts (snd (generate row col s)) = self_counts s \<and>
   self_counts (snd (generate_2 s)) = self_counts s"
  using wavefunction_counts[OF surjective_pairing] coupled_markov_chain_counts[OF surjective_pairing]
    generate_counts[OF surjective_pairing] generate_2_counts[OF surjective_pairing]
  by (intro conjI)

theorem generation_preserves_counts_witness:
  "self_counts (snd (wavefunction 0 7 example_state)) = example_counts \<and>
   self_counts (snd (coupled_markov_chain [0, 3] [0, 1] example_state)) = example_counts \<and>
   self_counts (snd (generate 2 2 example_state)) = example_counts \<and>
   self_counts (snd (generate_2 example_state)) = example_counts"
  using generation_preserves_counts[of 0 7 example_state "[0, 3]" "[0, 1]" 2 2]
  by (simp add: example_state_def)

end
